theory Spec2Isabelle
  imports Complex_Main "HOL-Library.Word" "HOL-Library.Signed_Division"
begin

unbundle bit_operations_syntax

section \<open>Data model\<close>

text \<open>
  A \<open>net.IP\<close> is a byte slice; the nil slice and the empty slice are both \<open>[]\<close>
  (the code only ever asks for its length and its elements).
\<close>

type_synonym IP = "8 word list"

text \<open>
  \<open>net.IPNet\<close>: the address and the mask. The code reads the mask only through
  \<open>n.Mask.Size()\<close>, so the mask is held as the pair \<open>(ones, bits)\<close> that call returns.
\<close>

record IPNet =
  IP :: IP
  Mask_ones :: int
  Mask_bits :: int

text \<open>
  The decoded scan report of the scanner file (\<open>xnDoc\<close> and its parts). The field \<open>Id\<close>
  of \<open>xnPort\<close> is \<open>Id_attr\<close> here.
\<close>

record xnAddr =
  Addr :: string
  Type :: string

record xnTimes =
  RTT :: string

record xnState =
  State :: string

record xnPort =
  Proto :: string
  Id_attr :: string
  State :: "xnState list"

record xnPorts =
  Port :: "xnPort list"

record xnHost =
  Addrs :: "xnAddr list"
  Times :: "xnTimes list"
  Ports :: "xnPorts list"

record xnDoc =
  Hosts :: "xnHost list"

text \<open>\<open>type Host struct\<close> of the scanner file. Go's \<open>int\<close> is taken at 64 bits.\<close>

record Host =
  IP :: IP
  RTT :: int
  OpenPorts :: "string list"

type_synonym ScanType = string

definition ScanHostUp :: ScanType where
  "ScanHostUp = ''HOSTUP''"

definition ScanDefaultPorts :: ScanType where
  "ScanDefaultPorts = ''DEFAULTPORTS''"

definition ScanAllPorts :: ScanType where
  "ScanAllPorts = ''ALLPORTS''"

definition ScanWebPorts :: ScanType where
  "ScanWebPorts = ''WEBPORTS''"

text \<open>\<open>color.RGBA\<close>: four 8-bit channels.\<close>

record RGBA =
  R :: "8 word"
  G :: "8 word"
  B :: "8 word"
  A :: "8 word"

text \<open>
  Errors of the program. The first two are the two \<open>fmt.Errorf\<close> results of
  \<open>getLength\<close> (the spec's \<open>InvalidSubnet\<close>), the third wraps the error of
  \<open>hilbert.New\<close> as \<open>renderImage\<close> does; the last two are run-time panics.
\<close>

datatype hilbert_error = ErrNotPositive | ErrNotPowerOfTwo | ErrOutOfRange

datatype error =
    ErrNotIPv4
  | ErrNotSquare
  | ErrHilbertMap hilbert_error
  | PanicIndexOutOfRange
  | PanicDivideByZero

definition InvalidSubnet :: "error \<Rightarrow> bool" where
  "InvalidSubnet e \<longleftrightarrow> e = ErrNotIPv4 \<or> e = ErrNotSquare"

definition is_panic :: "error \<Rightarrow> bool" where
  "is_panic e \<longleftrightarrow> e = PanicIndexOutOfRange \<or> e = PanicDivideByZero"

section \<open>Arithmetic of the target\<close>

text \<open>
  \<open>float64\<close> values are real numbers; every operation whose result need not be
  representable is followed by the rounding \<open>rnd\<close>. A conversion of a \<open>float64\<close> to
  \<open>uint8\<close> truncates towards zero; when the truncated value does not fit, Go leaves the
  result to the implementation, which is the function \<open>oor8\<close>. Expressions are evaluated
  operation by operation (no fused multiply-add).
\<close>

record fpenv =
  rnd :: "real \<Rightarrow> real"
  oor8 :: "real \<Rightarrow> 8 word"

text \<open>
  What is assumed of \<open>rnd\<close>: integers of magnitude up to \<open>2^53\<close> are representable,
  and in the normal range the relative error of rounding to nearest is at most \<open>2^-53\<close>.
\<close>

definition float64_model :: "fpenv \<Rightarrow> bool" where
  "float64_model fp \<longleftrightarrow>
     (\<forall>n::int. \<bar>n\<bar> \<le> 2 ^ 53 \<longrightarrow> rnd fp (of_int n) = of_int n) \<and>
     (\<forall>x::real. 1 / 2 ^ 1022 \<le> \<bar>x\<bar> \<and> \<bar>x\<bar> \<le> 2 ^ 1023 \<longrightarrow> \<bar>rnd fp x - x\<bar> \<le> \<bar>x\<bar> / 2 ^ 53)"

text \<open>The environment with exact arithmetic, used to run the definitions.\<close>

definition exact_fp :: fpenv where
  "exact_fp = \<lparr>rnd = (\<lambda>x. x), oor8 = (\<lambda>x. word_of_int \<lfloor>x\<rfloor>)\<rparr>"

definition float_to_int :: "real \<Rightarrow> int" where
  "float_to_int x = (if 0 \<le> x then \<lfloor>x\<rfloor> else \<lceil>x\<rceil>)"

definition float_to_uint8 :: "fpenv \<Rightarrow> real \<Rightarrow> 8 word" where
  "float_to_uint8 fp v =
     (let k = float_to_int v in if 0 \<le> k \<and> k \<le> 255 then word_of_int k else oor8 fp v)"

text \<open>Multiplication of two \<open>int\<close> values wraps around at 64 bits.\<close>

definition wrap64 :: "int \<Rightarrow> int" where
  "wrap64 k = (k + 2 ^ 63) mod 2 ^ 64 - 2 ^ 63"

section \<open>The gradient: \<open>colors\<close> and \<open>getColor\<close>\<close>

definition colors :: "(int \<times> RGBA) list" where
  "colors =
     [(0, \<lparr>R = 0, G = 0, B = 0, A = 255\<rparr>),
      (1, \<lparr>R = 0, G = 0, B = 255, A = 255\<rparr>),
      (2, \<lparr>R = 0, G = 255, B = 255, A = 255\<rparr>),
      (3, \<lparr>R = 0, G = 255, B = 0, A = 255\<rparr>),
      (4, \<lparr>R = 255, G = 255, B = 0, A = 255\<rparr>),
      (5, \<lparr>R = 255, G = 0, B = 0, A = 255\<rparr>),
      (6, \<lparr>R = 255, G = 255, B = 255, A = 255\<rparr>)]"

text \<open>Indexing a Go map: the zero value when the key is absent.\<close>

definition colors_at :: "int \<Rightarrow> RGBA" where
  "colors_at i =
     (case map_of colors i of Some c \<Rightarrow> c | None \<Rightarrow> \<lparr>R = 0, G = 0, B = 0, A = 0\<rparr>)"

definition len_colors :: int where
  "len_colors = int (length colors)"

definition MaxUint16 :: int where
  "MaxUint16 = 65535"

text \<open>
  One channel of the colour \<open>getColor\<close> returns:
  \<open>uint8(float64(prevC.X-currC.X)*fract + float64(currC.X))\<close>, the subtraction being
  one of \<open>uint8\<close>.
\<close>

definition channel :: "fpenv \<Rightarrow> 8 word \<Rightarrow> 8 word \<Rightarrow> real \<Rightarrow> 8 word" where
  "channel fp p c fract =
     float_to_uint8 fp (rnd fp (rnd fp (real (unat (p - c)) * fract) + real (unat c)))"

text \<open>The loop of \<open>getColor\<close>, from index \<open>i\<close> on.\<close>

function getColor_loop :: "fpenv \<Rightarrow> 16 word \<Rightarrow> int \<Rightarrow> RGBA" where
  "getColor_loop fp lvl i =
     (if i < len_colors then
        (let currC = colors_at i;
             currV = (word_of_int ((i * MaxUint16) sdiv len_colors) :: 16 word)
         in if lvl < currV then
              (let prevC = colors_at (max 0 (i - 1));
                   diff = (word_of_int (max 0 (i - 1)) :: 16 word) * word_of_int MaxUint16
                            div word_of_int len_colors - currV;
                   fract = (if diff \<noteq> 0
                            then rnd fp (real (unat lvl)
                                   - rnd fp (real (unat currV) / real (unat diff)))
                            else 0)
               in \<lparr>R = channel fp (R prevC) (R currC) fract,
                   G = channel fp (G prevC) (G currC) fract,
                   B = channel fp (B prevC) (B currC) fract,
                   A = channel fp (A prevC) (A currC) fract\<rparr>)
            else getColor_loop fp lvl (i + 1))
      else colors_at (len_colors - 1))"
  by pat_completeness auto
termination
  by (relation "measure (\<lambda>(fp, lvl, i). nat (len_colors - i))") auto

declare getColor_loop.simps [simp del]

definition getColor :: "fpenv \<Rightarrow> 16 word \<Rightarrow> RGBA" where
  "getColor fp lvl =
     (if lvl \<le> 0 then colors_at 0
      else if lvl \<ge> word_of_int MaxUint16 then colors_at (len_colors - 1)
      else getColor_loop fp lvl 0)"



section \<open>\<open>IPv4ToInt\<close> and \<open>getLength\<close>\<close>

text \<open>\<open>net.IP.To4\<close>: the 4-byte form of an address, or nil.\<close>

definition To4 :: "IP \<Rightarrow> IP" where
  "To4 ip =
     (if length ip = 4 then ip
      else if length ip = 16 \<and> (\<forall>b \<in> set (take 10 ip). b = 0)
              \<and> ip ! 10 = 255 \<and> ip ! 11 = 255
      then drop 12 ip
      else [])"

text \<open>Indexing the result of \<open>To4\<close> panics when it is nil.\<close>

definition IPv4ToInt :: "IP \<Rightarrow> error + 32 word" where
  "IPv4ToInt ip0 =
     (let ip = To4 ip0 in
      if length ip < 4 then Inl PanicIndexOutOfRange
      else Inr (push_bit 24 (ucast (ip ! 0)) + push_bit 16 (ucast (ip ! 1))
                + push_bit 8 (ucast (ip ! 2)) + ucast (ip ! 3)))"

text \<open>
  \<open>getLength\<close> returns \<open>(0, err)\<close> or \<open>(int(l), nil)\<close>; the same as a sum, the integer
  beside an error being 0.
\<close>

definition getLength :: "fpenv \<Rightarrow> IPNet \<Rightarrow> error + int" where
  "getLength fp n =
     (let ones = Mask_ones n; bits = Mask_bits n in
      if bits \<noteq> 32 then Inl ErrNotIPv4
      else
        (let l = rnd fp (sqrt (rnd fp (2 powr real_of_int (bits - ones))))
         in if l \<noteq> real_of_int \<lceil>l\<rceil> then Inl ErrNotSquare else Inr (float_to_int l)))"

section \<open>The curve: package \<open>hilbert\<close>\<close>

text \<open>
  Modelled from the spec: the curve mapper (\<open>CurveMapper.build\<close> and \<open>locate\<close>, in the
  code \<open>hilbert.New\<close> and \<open>Map\<close> of the imported package \<open>github.com/google/hilbert\<close>)
  is not among the source files. \<open>New\<close> accepts a side that is a positive power of two;
  \<open>Map\<close> accepts an offset \<open>0 \<le> t < N * N\<close> and walks the Hilbert curve of that side,
  two bits of the offset per doubling of the square.
\<close>

record Hilbert =
  N :: int

definition hilbert_New :: "int \<Rightarrow> hilbert_error + Hilbert" where
  "hilbert_New n =
     (if n \<le> 0 then Inl ErrNotPositive
      else if n AND (n - 1) \<noteq> 0 then Inl ErrNotPowerOfTwo
      else Inr \<lparr>N = n\<rparr>)"

definition rotate :: "int \<Rightarrow> int \<Rightarrow> int \<Rightarrow> bool \<Rightarrow> bool \<Rightarrow> int \<times> int" where
  "rotate n x y rx ry =
     (if \<not> ry then (if rx then (n - 1 - y, n - 1 - x) else (y, x)) else (x, y))"

definition Map_step :: "int \<Rightarrow> int \<times> int \<Rightarrow> int \<Rightarrow> int \<times> int" where
  "Map_step i p t =
     (let rx = (t AND 2 = 2);
          ry = (if rx then \<not> (t AND 1 = 1) else (t AND 1 = 1));
          q = rotate i (fst p) (snd p) rx ry
      in (if rx then fst q + i else fst q, if ry then snd q + i else snd q))"

text \<open>
  The loop \<open>for i := 1; i < s.N; i = i * 2\<close>; the variable \<open>i\<close> starts at 1 and stays
  positive.
\<close>

function Map_loop :: "int \<Rightarrow> int \<Rightarrow> int \<times> int \<Rightarrow> int \<Rightarrow> int \<times> int" where
  "Map_loop n i p t =
     (if 0 < i \<and> i < n then Map_loop n (i * 2) (Map_step i p t) (t div 4) else p)"
  by pat_completeness auto
termination
  by (relation "measure (\<lambda>(n, i, p, t). nat (n - i))") auto

declare Map_loop.simps [simp del]

definition hilbert_Map :: "Hilbert \<Rightarrow> int \<Rightarrow> hilbert_error + int \<times> int" where
  "hilbert_Map s t =
     (if t < 0 \<or> t \<ge> N s * N s then Inl ErrOutOfRange
      else Inr (Map_loop (N s) 1 (0, 0) t))"

text \<open>The points of the square of side \<open>n\<close>.\<close>

definition in_square :: "int \<Rightarrow> int \<times> int \<Rightarrow> bool" where
  "in_square n p \<longleftrightarrow> 0 \<le> fst p \<and> fst p < n \<and> 0 \<le> snd p \<and> snd p < n"

section \<open>The canvas: \<open>image.RGBA\<close>\<close>

text \<open>
  A square image with bounds \<open>(0, 0)\<close> to \<open>(Rect_Max, Rect_Max)\<close>, its pixels row by
  row. \<open>image.NewRGBA\<close> allocates zeroed pixels, \<open>draw.Draw\<close> with a uniform source
  and \<open>draw.Src\<close> overwrites every pixel, and \<open>SetRGBA\<close> ignores a point outside the
  bounds.
\<close>

record Canvas =
  Rect_Max :: int
  Pix :: "RGBA list"

definition NewRGBA :: "int \<Rightarrow> Canvas" where
  "NewRGBA l = \<lparr>Rect_Max = l, Pix = replicate (nat (l * l)) \<lparr>R = 0, G = 0, B = 0, A = 0\<rparr>\<rparr>"

definition draw_Uniform :: "RGBA \<Rightarrow> Canvas \<Rightarrow> Canvas" where
  "draw_Uniform c cv = cv\<lparr>Pix := map (\<lambda>_. c) (Pix cv)\<rparr>"

definition in_Rect :: "Canvas \<Rightarrow> int \<Rightarrow> int \<Rightarrow> bool" where
  "in_Rect cv x y \<longleftrightarrow> 0 \<le> x \<and> x < Rect_Max cv \<and> 0 \<le> y \<and> y < Rect_Max cv"

definition SetRGBA :: "Canvas \<Rightarrow> int \<Rightarrow> int \<Rightarrow> RGBA \<Rightarrow> Canvas" where
  "SetRGBA cv x y c =
     (if in_Rect cv x y then cv\<lparr>Pix := (Pix cv)[nat (y * Rect_Max cv + x) := c]\<rparr> else cv)"

definition RGBAAt :: "Canvas \<Rightarrow> int \<Rightarrow> int \<Rightarrow> RGBA" where
  "RGBAAt cv x y =
     (if in_Rect cv x y then Pix cv ! nat (y * Rect_Max cv + x)
      else \<lparr>R = 0, G = 0, B = 0, A = 0\<rparr>)"

section \<open>\<open>renderImage\<close>\<close>

text \<open>The two loops that find \<open>max\<close>, one per branch of the \<open>switch\<close>.\<close>

definition maxValue :: "ScanType \<Rightarrow> Host list \<Rightarrow> int" where
  "maxValue st hosts =
     (if st = ScanHostUp
      then foldl (\<lambda>m h. if Host.RTT h > m then Host.RTT h else m) 0 hosts
      else foldl (\<lambda>m h. if int (length (OpenPorts h)) > m then int (length (OpenPorts h)) else m)
             0 hosts)"

text \<open>\<open>uint16(v * int(math.MaxUint16) / max)\<close>: integer division panics on a zero divisor.\<close>

definition scale :: "int \<Rightarrow> int \<Rightarrow> error + 16 word" where
  "scale v mx =
     (if mx = 0 then Inl PanicDivideByZero
      else Inr (word_of_int (wrap64 (v * MaxUint16) sdiv mx)))"

definition level :: "ScanType \<Rightarrow> int \<Rightarrow> Host \<Rightarrow> error + 16 word" where
  "level st mx h =
     (if st = ScanHostUp then scale (Host.RTT h) mx else scale (int (length (OpenPorts h))) mx)"

text \<open>The body of the painting loop, for one host.\<close>

definition paint :: "fpenv \<Rightarrow> Hilbert \<Rightarrow> 32 word \<Rightarrow> ScanType \<Rightarrow> int \<Rightarrow> Canvas \<Rightarrow> Host
    \<Rightarrow> error + Canvas" where
  "paint fp hil startIP st mx canvas h =
     (case IPv4ToInt (Host.IP h) of
        Inl e \<Rightarrow> Inl e
      | Inr a \<Rightarrow>
          (let t = a - startIP in
           case hilbert_Map hil (uint t) of
             Inl err \<Rightarrow> Inr canvas
           | Inr (x, y) \<Rightarrow>
               (case level st mx h of
                  Inl e \<Rightarrow> Inl e
                | Inr lvl \<Rightarrow> Inr (SetRGBA canvas x y (getColor fp lvl)))))"

fun paintHosts :: "fpenv \<Rightarrow> Hilbert \<Rightarrow> 32 word \<Rightarrow> ScanType \<Rightarrow> int \<Rightarrow> Canvas \<Rightarrow> Host list
    \<Rightarrow> error + Canvas" where
  "paintHosts fp hil startIP st mx canvas [] = Inr canvas"
| "paintHosts fp hil startIP st mx canvas (h # hs) =
     (case paint fp hil startIP st mx canvas h of
        Inl e \<Rightarrow> Inl e
      | Inr canvas' \<Rightarrow> paintHosts fp hil startIP st mx canvas' hs)"

text \<open>
  \<open>renderImage\<close>. The error of \<open>getLength\<close> is dropped (\<open>l, _ := getLength(n)\<close>), which
  leaves \<open>l = 0\<close>.
\<close>

definition renderImage :: "fpenv \<Rightarrow> IPNet \<Rightarrow> bool \<Rightarrow> ScanType \<Rightarrow> Host list \<Rightarrow> error + Canvas" where
  "renderImage fp n t st hosts =
     (let l = (case getLength fp n of Inl _ \<Rightarrow> 0 | Inr l \<Rightarrow> l);
          canvas0 = NewRGBA l;
          canvas = (if \<not> t then draw_Uniform (colors_at 0) canvas0 else canvas0)
      in case hilbert_New l of
           Inl err \<Rightarrow> Inl (ErrHilbertMap err)
         | Inr hil \<Rightarrow>
             (case IPv4ToInt (IPNet.IP n) of
                Inl e \<Rightarrow> Inl e
              | Inr startIP \<Rightarrow> paintHosts fp hil startIP st (maxValue st hosts) canvas hosts))"

text \<open>The metric the \<open>switch\<close> on the scan type selects for a host.\<close>

definition metric :: "ScanType \<Rightarrow> Host \<Rightarrow> int" where
  "metric st h = (if st = ScanHostUp then Host.RTT h else int (length (OpenPorts h)))"

text \<open>
  Two records that \<open>renderImage\<close> reads alike: the same 4-byte form of the address and the
  same selected metric.
\<close>

definition reads_alike :: "ScanType \<Rightarrow> Host \<Rightarrow> Host \<Rightarrow> bool" where
  "reads_alike st h h' \<longleftrightarrow>
     To4 (Host.IP h) = To4 (Host.IP h') \<and> metric st h = metric st h'"

section \<open>\<open>parseXml\<close>\<close>

text \<open>
  Library functions the parser calls, as parameters: \<open>net.ParseIP\<close> (nil when the text is
  no address), \<open>strconv.Atoi\<close> (\<open>None\<close> for its error) and the IPv6 text form that
  \<open>net.IP.String\<close> prints for a 16-byte address with no 4-byte form.
\<close>

record lib =
  ParseIP :: "string \<Rightarrow> IP"
  Atoi :: "string \<Rightarrow> int option"
  ipv6_text :: "IP \<Rightarrow> string"

fun uitoa :: "nat \<Rightarrow> string" where
  "uitoa n = (if n < 10 then [char_of (48 + n)] else uitoa (n div 10) @ [char_of (48 + n mod 10)])"

declare uitoa.simps [simp del]

definition hexDigit :: "nat \<Rightarrow> char" where
  "hexDigit d = (''0123456789abcdef'') ! d"

definition hexString :: "IP \<Rightarrow> string" where
  "hexString b = concat (map (\<lambda>tn. [hexDigit (unat tn div 16), hexDigit (unat tn mod 16)]) b)"

text \<open>
  \<open>net.IP.String\<close>: \<open>"<nil>"\<close> for an address of length 0, dotted decimal for one with a
  4-byte form, \<open>"?"\<close> and the bytes in hexadecimal for one of a length other than 16, the
  IPv6 text otherwise.
\<close>

definition IP_String :: "lib \<Rightarrow> IP \<Rightarrow> string" where
  "IP_String lb ip =
     (if length ip = 0 then ''<nil>''
      else if length (To4 ip) = 4 then
        (let p4 = To4 ip in
         uitoa (unat (p4 ! 0)) @ ''.'' @ uitoa (unat (p4 ! 1)) @ ''.''
           @ uitoa (unat (p4 ! 2)) @ ''.'' @ uitoa (unat (p4 ! 3)))
      else if length ip \<noteq> 16 then ''?'' @ hexString ip
      else ipv6_text lb ip)"

text \<open>The three loops that fill one \<open>Host\<close>; \<open>xp.State[0]\<close> panics on an empty slice.\<close>

definition host_IP :: "lib \<Rightarrow> xnAddr list \<Rightarrow> IP" where
  "host_IP lb xas = foldl (\<lambda>ip xa. if Type xa = ''ipv4'' then ParseIP lb (Addr xa) else ip) [] xas"

definition host_RTT :: "lib \<Rightarrow> xnTimes list \<Rightarrow> int" where
  "host_RTT lb xts =
     foldl (\<lambda>r xt. case Atoi lb (xnTimes.RTT xt) of None \<Rightarrow> r | Some i \<Rightarrow> i) 0 xts"

fun host_OpenPorts :: "xnPort list \<Rightarrow> string list \<Rightarrow> error + string list" where
  "host_OpenPorts [] acc = Inr acc"
| "host_OpenPorts (xp # xps) acc =
     (case xnPort.State xp of
        [] \<Rightarrow> Inl PanicIndexOutOfRange
      | s # _ \<Rightarrow>
          host_OpenPorts xps
            (if xnState.State s = ''open'' then acc @ [Proto xp @ ''/'' @ Id_attr xp] else acc))"

definition parseHost :: "lib \<Rightarrow> xnHost \<Rightarrow> error + Host" where
  "parseHost lb xh =
     (case host_OpenPorts (concat (map Port (Ports xh))) [] of
        Inl e \<Rightarrow> Inl e
      | Inr ps \<Rightarrow>
          Inr \<lparr>Host.IP = host_IP lb (Addrs xh), RTT = host_RTT lb (Times xh), OpenPorts = ps\<rparr>)"

fun parseHosts :: "lib \<Rightarrow> xnHost list \<Rightarrow> Host list \<Rightarrow> error + Host list" where
  "parseHosts lb [] hosts = Inr hosts"
| "parseHosts lb (xh # xhs) hosts =
     (case parseHost lb xh of
        Inl e \<Rightarrow> Inl e
      | Inr h \<Rightarrow>
          parseHosts lb xhs (if IP_String lb (Host.IP h) \<noteq> [] then hosts @ [h] else hosts))"

text \<open>\<open>parseXml\<close>, from the decoded document on.\<close>

definition parseXml :: "lib \<Rightarrow> xnDoc \<Rightarrow> error + Host list" where
  "parseXml lb doc = parseHosts lb (Hosts doc) []"

text \<open>A library whose parser knows no address, to run the definitions.\<close>

definition no_lib :: lib where
  "no_lib = \<lparr>ParseIP = (\<lambda>_. []), Atoi = (\<lambda>_. None), ipv6_text = (\<lambda>_. ''::'')\<rparr>"

section \<open>The interpolation the spec describes\<close>

text \<open>
  Spec, GradientRenderer: stop \<open>i\<close> is centered at \<open>i * MAXVALUE / N\<close>; a level between
  the centers of stop \<open>i - 1\<close> and stop \<open>i\<close> gives each channel the value interpolated
  linearly by the fractional position between the two centers.
\<close>

definition stop_center :: "int \<Rightarrow> int" where
  "stop_center i = (i * MaxUint16) sdiv len_colors"

definition spec_channel :: "int \<Rightarrow> int \<Rightarrow> (RGBA \<Rightarrow> 8 word) \<Rightarrow> real" where
  "spec_channel lvl i ch =
     (let lo = stop_center (i - 1); hi = stop_center i;
          f = (real_of_int lvl - real_of_int lo) / (real_of_int hi - real_of_int lo);
          p = real (unat (ch (colors_at (i - 1)))); c = real (unat (ch (colors_at i)))
      in p + (c - p) * f)"

section \<open>Facts about the arithmetic\<close>

lemma float64_model_exact: "float64_model exact_fp"
  by (simp add: float64_model_def exact_fp_def)

lemma rnd_int:
  "float64_model fp \<Longrightarrow> \<bar>n\<bar> \<le> 2 ^ 53 \<Longrightarrow> rnd fp (real_of_int n) = real_of_int n"
  by (simp add: float64_model_def)

lemma rnd_pow2:
  assumes "float64_model fp" "h \<le> 53"
  shows "rnd fp (2 ^ h) = 2 ^ h"
proof -
  have "(2::int) ^ h \<le> 2 ^ 53" using assms(2) by (intro power_increasing) auto
  then have "\<bar>(2::int) ^ h\<bar> \<le> 2 ^ 53" by simp
  from rnd_int [OF assms(1) this] show ?thesis by simp
qed

lemma rnd_err:
  "float64_model fp \<Longrightarrow> 1 / 2 ^ 1022 \<le> \<bar>x\<bar> \<Longrightarrow> \<bar>x\<bar> \<le> 2 ^ 1023
     \<Longrightarrow> \<bar>rnd fp x - x\<bar> \<le> \<bar>x\<bar> / 2 ^ 53"
  by (simp add: float64_model_def)

lemma not_int_between:
  fixes l :: real
  assumes "of_int k < l" "l < of_int k + 1"
  shows "l \<noteq> of_int \<lceil>l\<rceil>"
proof -
  have "\<lceil>l\<rceil> = k + 1" using assms by (intro ceiling_unique) auto
  then show ?thesis using assms by auto
qed

lemma sqrt_pow2_even: "sqrt (2 ^ (2 * m)) = 2 ^ m"
  by (simp add: power_mult real_sqrt_power)

lemma float_to_int_of_int: "float_to_int (real_of_int k) = k"
  by (simp add: float_to_int_def)

text \<open>
  The rounded square root of \<open>2 ^ h\<close> is no integer as soon as the exact root lies a
  hundredth away from the integers around it, which two integer inequalities decide.
\<close>

lemma sqrt_frac:
  fixes k :: int and h :: nat
  assumes fp: "float64_model fp" and k: "0 \<le> k" and h: "h \<le> 32"
    and lo: "(100 * k + 1)\<^sup>2 < 10000 * 2 ^ h"
    and hi: "10000 * 2 ^ h < (100 * k + 99)\<^sup>2"
  shows "rnd fp (sqrt (2 ^ h)) \<noteq> real_of_int \<lceil>rnd fp (sqrt (2 ^ h))\<rceil>"
proof -
  define x :: real where "x = sqrt (2 ^ h)"
  have "real_of_int ((100 * k + 1)\<^sup>2) < real_of_int (10000 * 2 ^ h)"
    using lo by (simp only: of_int_less_iff)
  then have "(real_of_int k + 1 / 100)\<^sup>2 < 2 ^ h"
    by (simp add: power2_eq_square field_simps)
  then have lo': "real_of_int k + 1 / 100 < x"
    unfolding x_def by (rule real_less_rsqrt)
  have "real_of_int (10000 * 2 ^ h) < real_of_int ((100 * k + 99)\<^sup>2)"
    using hi by (simp only: of_int_less_iff)
  then have "2 ^ h < (real_of_int k + 99 / 100)\<^sup>2"
    by (simp add: power2_eq_square field_simps)
  then have hi': "x < real_of_int k + 99 / 100"
    unfolding x_def using k by (intro real_less_lsqrt) auto
  have x1: "1 \<le> x" unfolding x_def by simp
  have "(2::real) ^ h \<le> 2 ^ (2 * h)" by (intro power_increasing) auto
  then have "x \<le> sqrt (2 ^ (2 * h))" unfolding x_def by (rule real_sqrt_le_mono)
  also have "\<dots> = 2 ^ h" by (rule sqrt_pow2_even)
  also have "\<dots> \<le> 2 ^ 32" using h by (intro power_increasing) auto
  finally have x2: "x \<le> 2 ^ 32" .
  have "(1::real) / 2 ^ 1022 \<le> 1" by simp
  then have n1: "1 / 2 ^ 1022 \<le> \<bar>x\<bar>" using x1 by linarith
  have "(2::real) ^ 32 \<le> 2 ^ 1023" by (intro power_increasing) auto
  then have n2: "\<bar>x\<bar> \<le> 2 ^ 1023" using x1 x2 by linarith
  have "\<bar>rnd fp x - x\<bar> \<le> \<bar>x\<bar> / 2 ^ 53" by (rule rnd_err [OF fp n1 n2])
  moreover have "\<bar>x\<bar> / 2 ^ 53 \<le> 2 ^ 32 / 2 ^ 53" using x1 x2 by (simp add: divide_right_mono)
  ultimately have e: "\<bar>rnd fp x - x\<bar> \<le> 1 / 1000" by simp
  have "real_of_int k < rnd fp x" "rnd fp x < real_of_int k + 1"
    using e lo' hi' by linarith+
  then show ?thesis unfolding x_def [symmetric] by (rule not_int_between)
qed

lemma odd_sqrt_table:
  "\<forall>m \<in> set [0..<16].
     (100 * int ([1, 2, 5, 11, 22, 45, 90, 181, 362, 724, 1448, 2896, 5792, 11585, 23170, 46340] ! m) + 1)\<^sup>2
        < 10000 * 2 ^ (2 * m + 1) \<and>
     10000 * 2 ^ (2 * m + 1)
        < (100 * int ([1, 2, 5, 11, 22, 45, 90, 181, 362, 724, 1448, 2896, 5792, 11585, 23170, 46340] ! m) + 99)\<^sup>2"
  by (simp add: upt_rec)

lemma host_bits_even:
  fixes p :: int
  assumes "0 \<le> p" "p \<le> 32" "even (32 - p)"
  shows "p = 32 - 2 * int (nat (32 - p) div 2) \<and> nat (32 - p) div 2 \<le> 16"
proof -
  from assms(3) obtain k where k: "32 - p = 2 * k" by (elim evenE)
  with assms have "0 \<le> k" by simp
  then obtain j where j: "k = int j" using zero_le_imp_eq_int by blast
  have "32 - p = int (2 * j)" using k j by simp
  then have "nat (32 - p) = 2 * j" by (simp only: nat_int)
  then have d: "nat (32 - p) div 2 = j" by simp
  have "p = 32 - 2 * int j" "j \<le> 16" using k j assms(1) by simp_all
  then show ?thesis unfolding d by simp
qed

lemma host_bits_odd:
  fixes p :: int
  assumes "0 \<le> p" "p \<le> 32" "odd (32 - p)"
  shows "p = 32 - (2 * int (nat (32 - p) div 2) + 1) \<and> nat (32 - p) div 2 < 16"
proof -
  from assms(3) obtain k where k: "32 - p = 2 * k + 1" by (elim oddE)
  with assms have "0 \<le> k" by simp
  then obtain j where j: "k = int j" using zero_le_imp_eq_int by blast
  have "32 - p = int (2 * j + 1)" using k j by simp
  then have "nat (32 - p) = 2 * j + 1" by (simp only: nat_int)
  then have d: "nat (32 - p) div 2 = j" by simp
  have "p = 32 - (2 * int j + 1)" "j < 16" using k j assms(1) by simp_all
  then show ?thesis unfolding d by simp
qed

section \<open>Properties of \<open>getLength\<close>\<close>

lemma getLength_even:
  assumes fp: "float64_model fp" and b: "Mask_bits n = 32" and o: "Mask_ones n = 32 - 2 * int m"
    and m: "m \<le> 16"
  shows "getLength fp n = Inr (2 ^ m)"
proof -
  have "(2::real) powr real_of_int (32 - (32 - 2 * int m)) = 2 ^ (2 * m)"
    by (simp add: powr_realpow [symmetric])
  moreover have "rnd fp (2 ^ (2 * m)) = 2 ^ (2 * m)"
    using m by (intro rnd_pow2 [OF fp]) simp
  moreover have "rnd fp (2 ^ m) = 2 ^ m"
    using m by (intro rnd_pow2 [OF fp]) simp
  ultimately have "rnd fp (sqrt (rnd fp (2 powr real_of_int (32 - (32 - 2 * int m)))))
      = real_of_int (2 ^ m)"
    by (simp add: sqrt_pow2_even)
  then show ?thesis
    unfolding getLength_def Let_def b o
    by (simp only: float_to_int_of_int ceiling_of_int if_False simp_thms)
qed

lemma getLength_odd:
  assumes fp: "float64_model fp" and b: "Mask_bits n = 32"
    and o: "Mask_ones n = 32 - (2 * int m + 1)" and m: "m < 16"
  shows "getLength fp n = Inl ErrNotSquare"
proof -
  define k where
    "k = int ([1, 2, 5, 11, 22, 45, 90, 181, 362, 724, 1448, 2896, 5792, 11585, 23170, 46340] ! m)"
  have "m \<in> set [0..<16]" using m by simp
  with odd_sqrt_table
  have lo: "(100 * k + 1)\<^sup>2 < 10000 * 2 ^ (2 * m + 1)"
    and hi: "10000 * 2 ^ (2 * m + 1) < (100 * k + 99)\<^sup>2"
    unfolding k_def by blast+
  have k0: "0 \<le> k" unfolding k_def by simp
  have h: "2 * m + 1 \<le> 32" using m by simp
  have "32 - (32 - (2 * int m + 1)) = int (2 * m + 1)" by simp
  then have "(2::real) powr real_of_int (32 - (32 - (2 * int m + 1))) = 2 ^ (2 * m + 1)"
    by (simp only: powr_realpow [symmetric] of_int_of_nat_eq)
  moreover have "rnd fp (2 ^ (2 * m + 1)) = 2 ^ (2 * m + 1)"
    using m by (intro rnd_pow2 [OF fp]) simp
  ultimately have "rnd fp (sqrt (rnd fp (2 powr real_of_int (32 - (32 - (2 * int m + 1))))))
      = rnd fp (sqrt (2 ^ (2 * m + 1)))"
    by (simp only:)
  moreover note sqrt_frac [OF fp k0 h lo hi]
  ultimately show ?thesis
    unfolding getLength_def Let_def b o by (simp only: simp_thms if_True if_False)
qed

lemma getLength_invalid:
  assumes "float64_model fp" and "0 \<le> Mask_ones n" and "Mask_ones n \<le> Mask_bits n"
    and "Mask_bits n \<noteq> 32 \<or> odd (32 - Mask_ones n)"
  shows "\<exists>e. getLength fp n = Inl e \<and> InvalidSubnet e"
proof (cases "Mask_bits n = 32")
  case True
  define m where "m = nat (32 - Mask_ones n) div 2"
  have "Mask_ones n = 32 - (2 * int m + 1)" and "m < 16"
    unfolding m_def using host_bits_odd [of "Mask_ones n"] True assms(2,3,4) by simp_all
  then have "getLength fp n = Inl ErrNotSquare"
    using assms(1) True by (intro getLength_odd) auto
  then show ?thesis by (simp add: InvalidSubnet_def)
next
  case False
  then show ?thesis by (simp add: getLength_def InvalidSubnet_def)
qed

text \<open>
  C4. On a 32-bit mask with prefix length \<open>p\<close> (\<open>0 \<le> p \<le> 32\<close>) and an even number
  \<open>32 - p\<close> of host bits, \<open>getLength\<close> succeeds with the side \<open>2 ^ ((32 - p) div 2)\<close>,
  whose square is \<open>2 ^ (32 - p)\<close>; with an odd number of host bits it fails with the
  not-square error, and on a mask that is not 32 bits wide it fails with the not-IPv4 error
  (both are the spec's \<open>InvalidSubnet\<close>).
\<close>

theorem getLength_side:
  assumes "float64_model fp" and "0 \<le> Mask_ones n" and "Mask_ones n \<le> Mask_bits n"
  shows "(Mask_bits n = 32 \<and> even (32 - Mask_ones n) \<longrightarrow>
            (\<exists>side. getLength fp n = Inr side \<and> side = 2 ^ (nat (32 - Mask_ones n) div 2)
               \<and> side * side = 2 ^ nat (32 - Mask_ones n)))
       \<and> (Mask_bits n = 32 \<and> odd (32 - Mask_ones n) \<longrightarrow>
            getLength fp n = Inl ErrNotSquare \<and> InvalidSubnet ErrNotSquare)
       \<and> (Mask_bits n \<noteq> 32 \<longrightarrow> getLength fp n = Inl ErrNotIPv4 \<and> InvalidSubnet ErrNotIPv4)"
proof (intro conjI impI)
  assume a: "Mask_bits n = 32 \<and> even (32 - Mask_ones n)"
  define m where "m = nat (32 - Mask_ones n) div 2"
  have o: "Mask_ones n = 32 - 2 * int m" and m: "m \<le> 16"
    unfolding m_def using host_bits_even [of "Mask_ones n"] a assms(2,3) by simp_all
  have "getLength fp n = Inr (2 ^ m)"
    using assms(1) a o m by (intro getLength_even) auto
  moreover have "nat (32 - Mask_ones n) = m + m" using o by simp
  then have "(2::int) ^ m * 2 ^ m = 2 ^ nat (32 - Mask_ones n)"
    by (simp only: power_add)
  ultimately show "\<exists>side. getLength fp n = Inr side \<and> side = 2 ^ (nat (32 - Mask_ones n) div 2)
               \<and> side * side = 2 ^ nat (32 - Mask_ones n)"
    unfolding m_def by simp
next
  assume a: "Mask_bits n = 32 \<and> odd (32 - Mask_ones n)"
  define m where "m = nat (32 - Mask_ones n) div 2"
  have o: "Mask_ones n = 32 - (2 * int m + 1)" and m: "m < 16"
    unfolding m_def using host_bits_odd [of "Mask_ones n"] a assms(2,3) by simp_all
  show "getLength fp n = Inl ErrNotSquare"
    using assms(1) a o m by (intro getLength_odd) auto
next
  assume "Mask_bits n \<noteq> 32"
  then show "getLength fp n = Inl ErrNotIPv4"
    by (simp add: getLength_def)
qed (simp_all add: InvalidSubnet_def)

theorem getLength_side_witness:
  "float64_model exact_fp
   \<and> getLength exact_fp \<lparr>IPNet.IP = [10, 0, 0, 0], Mask_ones = 24, Mask_bits = 32\<rparr> = Inr 16
   \<and> getLength exact_fp \<lparr>IPNet.IP = [10, 0, 0, 0], Mask_ones = 23, Mask_bits = 32\<rparr> = Inl ErrNotSquare
   \<and> getLength exact_fp \<lparr>IPNet.IP = replicate 16 0, Mask_ones = 64, Mask_bits = 128\<rparr> = Inl ErrNotIPv4"
  using getLength_side [OF float64_model_exact,
      of "\<lparr>IPNet.IP = [10, 0, 0, 0], Mask_ones = 24, Mask_bits = 32\<rparr>"]
    getLength_side [OF float64_model_exact,
      of "\<lparr>IPNet.IP = [10, 0, 0, 0], Mask_ones = 23, Mask_bits = 32\<rparr>"]
    getLength_side [OF float64_model_exact,
      of "\<lparr>IPNet.IP = replicate 16 0, Mask_ones = 64, Mask_bits = 128\<rparr>"]
    float64_model_exact
  by simp

section \<open>Properties of \<open>getColor\<close>\<close>

lemma colors_at_simps:
  "colors_at 0 = \<lparr>R = 0, G = 0, B = 0, A = 255\<rparr>"
  "colors_at 1 = \<lparr>R = 0, G = 0, B = 255, A = 255\<rparr>"
  "colors_at 6 = \<lparr>R = 255, G = 255, B = 255, A = 255\<rparr>"
  "len_colors = 7"
  by (simp_all add: colors_at_def colors_def len_colors_def)


lemma getColor_high:
  "word_of_int MaxUint16 \<le> lvl \<Longrightarrow> getColor fp lvl = \<lparr>R = 255, G = 255, B = 255, A = 255\<rparr>"
  by (auto simp add: getColor_def colors_at_simps MaxUint16_def)

lemma wrap64_id: "- (2 ^ 63) \<le> k \<Longrightarrow> k < 2 ^ 63 \<Longrightarrow> wrap64 k = k"
  by (simp add: wrap64_def)

lemma scale_max:
  assumes "0 < m" "m * MaxUint16 < 2 ^ 63"
  shows "scale m m = Inr (word_of_int MaxUint16)"
proof -
  have "wrap64 (m * MaxUint16) = m * MaxUint16"
    using assms by (intro wrap64_id) (auto simp: MaxUint16_def)
  moreover have "(m * MaxUint16) sdiv m = MaxUint16"
    using assms(1) by (simp add: signed_divide_int_def MaxUint16_def)
  ultimately show ?thesis using assms(1) by (simp add: scale_def)
qed

lemma rnd_near:
  assumes fp: "float64_model fp" and x: "1 / 8 \<le> x" "x \<le> 2 ^ 20"
  shows "x - 1 / 1000 \<le> rnd fp x \<and> rnd fp x \<le> x + 1 / 1000"
proof -
  have "(1::real) / 2 ^ 1022 \<le> 1 / 2 ^ 3" by (intro divide_left_mono power_increasing) auto
  then have n1: "1 / 2 ^ 1022 \<le> \<bar>x\<bar>" using x by simp
  have "(2::real) ^ 20 \<le> 2 ^ 1023" by (intro power_increasing) auto
  then have n2: "\<bar>x\<bar> \<le> 2 ^ 1023" using x by simp
  have "\<bar>rnd fp x - x\<bar> \<le> \<bar>x\<bar> / 2 ^ 53" by (rule rnd_err [OF fp n1 n2])
  moreover have "\<bar>x\<bar> / 2 ^ 53 \<le> 2 ^ 20 / 2 ^ 53" using x by (simp add: divide_right_mono)
  ultimately have "\<bar>rnd fp x - x\<bar> \<le> 1 / 1000" by simp
  then show ?thesis by linarith
qed

lemma rnd_0: "float64_model fp \<Longrightarrow> rnd fp 0 = 0"
  using rnd_int [of fp 0] by simp

lemma rnd_255: "float64_model fp \<Longrightarrow> rnd fp 255 = 255"
  using rnd_int [of fp 255] by simp

lemma channel_0_0: "float64_model fp \<Longrightarrow> channel fp 0 0 fract = 0"
  by (simp add: channel_def rnd_0 float_to_uint8_def float_to_int_def)

lemma channel_255_255: "float64_model fp \<Longrightarrow> channel fp 255 255 fract = 255"
  by (simp add: channel_def rnd_0 rnd_255 float_to_uint8_def float_to_int_def)

lemma channel_level_1:
  assumes fp: "float64_model fp"
  shows "channel fp 0 255 (rnd fp (1 - rnd fp (9362 / 56174))) = 255"
proof -
  define q where "q = rnd fp (9362 / 56174)"
  define f where "f = rnd fp (1 - q)"
  define g where "g = rnd fp (1 * f)"
  define v where "v = rnd fp (g + 255)"
  have q: "16 / 100 \<le> q \<and> q \<le> 17 / 100"
    using rnd_near [OF fp, of "9362 / 56174"] unfolding q_def by simp
  then have f: "82 / 100 \<le> f \<and> f \<le> 85 / 100"
    using rnd_near [OF fp, of "1 - q"] unfolding f_def by simp
  then have g: "81 / 100 \<le> g \<and> g \<le> 86 / 100"
    using rnd_near [OF fp, of "1 * f"] unfolding g_def by simp
  then have v: "255 \<le> v \<and> v < 256"
    using rnd_near [OF fp, of "g + 255"] unfolding v_def by simp
  then have "\<lfloor>v\<rfloor> = 255" by (intro floor_unique) auto
  then have "float_to_uint8 fp v = 255"
    using v by (simp add: float_to_uint8_def float_to_int_def)
  then show ?thesis
    unfolding channel_def v_def g_def f_def q_def by simp
qed

lemma getColor_1:
  assumes fp: "float64_model fp"
  shows "getColor fp 1 = \<lparr>R = 0, G = 0, B = 255, A = 255\<rparr>"
proof -
  have "getColor fp 1 = getColor_loop fp 1 0"
    by (simp add: getColor_def MaxUint16_def word_le_nat_alt)
  also have "\<dots> = getColor_loop fp 1 1"
    by (simp add: getColor_loop.simps [of fp 1 0] colors_at_simps MaxUint16_def
          signed_divide_int_def)
  also have "\<dots> = \<lparr>R = 0, G = 0, B = 255, A = 255\<rparr>"
    by (simp add: getColor_loop.simps [of fp 1 1] colors_at_simps MaxUint16_def
          signed_divide_int_def Let_def channel_0_0 [OF fp] channel_255_255 [OF fp]
          channel_level_1 [OF fp, simplified])
  finally show ?thesis .
qed


lemma channel_level_16383:
  assumes fp: "float64_model fp"
  shows "\<exists>v. 16637 < v \<and> v < 16638 \<and>
    channel fp 0 255 (rnd fp (16383 - rnd fp (18724 / 56174))) = oor8 fp v"
proof -
  define q where "q = rnd fp (18724 / 56174)"
  define f where "f = rnd fp (16383 - q)"
  define g where "g = rnd fp (1 * f)"
  define v where "v = rnd fp (g + 255)"
  have q: "33 / 100 \<le> q \<and> q \<le> 34 / 100"
    using rnd_near [OF fp, of "18724 / 56174"] unfolding q_def by simp
  then have f: "16383 - 35 / 100 \<le> f \<and> f \<le> 16383 - 32 / 100"
    using rnd_near [OF fp, of "16383 - q"] unfolding f_def by simp
  then have g: "16383 - 36 / 100 \<le> g \<and> g \<le> 16383 - 31 / 100"
    using rnd_near [OF fp, of "1 * f"] unfolding g_def by simp
  then have v: "16637 < v \<and> v < 16638"
    using rnd_near [OF fp, of "g + 255"] unfolding v_def by simp
  then have "\<lfloor>v\<rfloor> = 16637" by (intro floor_unique) auto
  then have "float_to_uint8 fp v = oor8 fp v"
    using v by (simp add: float_to_uint8_def float_to_int_def)
  then have "channel fp 0 255 (rnd fp (16383 - rnd fp (18724 / 56174))) = oor8 fp v"
    unfolding channel_def v_def g_def f_def q_def by simp
  with v show ?thesis by blast
qed

lemma getColor_16383:
  assumes fp: "float64_model fp"
  shows "\<exists>v. 16637 < v \<and> v < 16638 \<and>
     getColor fp 16383 = \<lparr>R = 0, G = oor8 fp v, B = 255, A = 255\<rparr>"
proof -
  from channel_level_16383 [OF fp] obtain v where v: "16637 < v" "v < 16638"
    and c: "channel fp 0 255 (rnd fp (16383 - rnd fp (18724 / 56174))) = oor8 fp v" by blast
  have "getColor fp 16383 = getColor_loop fp 16383 0"
    by (simp add: getColor_def MaxUint16_def word_le_nat_alt)
  also have "\<dots> = getColor_loop fp 16383 1"
    by (simp add: getColor_loop.simps [of fp 16383 0] colors_at_simps MaxUint16_def
          signed_divide_int_def)
  also have "\<dots> = getColor_loop fp 16383 2"
    by (simp add: getColor_loop.simps [of fp 16383 1] colors_at_simps MaxUint16_def
          signed_divide_int_def word_less_nat_alt)
  also have "\<dots> = \<lparr>R = 0, G = oor8 fp v, B = 255, A = 255\<rparr>"
    by (simp add: getColor_loop.simps [of fp 16383 2] colors_at_def colors_def len_colors_def MaxUint16_def
          signed_divide_int_def Let_def channel_0_0 [OF fp] channel_255_255 [OF fp]
          c [simplified] word_less_nat_alt)
  finally show ?thesis using v by blast
qed

text \<open>
  C1. The claim is that a level between the centers of two stops gets the linearly
  interpolated colour. The code does not compute it: at level 1, which lies between the
  centers 0 and 9362 of the stops black and blue, the spec's blue channel is \<open>255 / 9362\<close>
  (which rounds to 0), and \<open>getColor\<close> returns pure blue. For the metric 10 of a maximum
  of 40 the level is 16383, and the green channel of the result is the conversion to
  \<open>uint8\<close> of a number above 16637, which the language leaves to the implementation.
\<close>

theorem getColor_not_interpolated:
  assumes "float64_model fp"
  shows "getColor fp 1 = \<lparr>R = 0, G = 0, B = 255, A = 255\<rparr>
       \<and> spec_channel 1 1 B = 255 / 9362
       \<and> scale 10 40 = Inr 16383
       \<and> (\<exists>v. 16637 < v \<and> v < 16638
             \<and> getColor fp 16383 = \<lparr>R = 0, G = oor8 fp v, B = 255, A = 255\<rparr>)"
proof (intro conjI)
  show "getColor fp 1 = \<lparr>R = 0, G = 0, B = 255, A = 255\<rparr>"
    by (rule getColor_1 [OF assms])
  show "spec_channel 1 1 B = 255 / 9362"
    by (simp add: spec_channel_def stop_center_def colors_at_simps MaxUint16_def
          signed_divide_int_def)
  show "scale 10 40 = Inr 16383"
    by (simp add: scale_def wrap64_def MaxUint16_def signed_divide_int_def)
  show "\<exists>v. 16637 < v \<and> v < 16638
      \<and> getColor fp 16383 = \<lparr>R = 0, G = oor8 fp v, B = 255, A = 255\<rparr>"
    by (rule getColor_16383 [OF assms])
qed

theorem getColor_not_interpolated_witness:
  "float64_model exact_fp \<and> getColor exact_fp 1 = \<lparr>R = 0, G = 0, B = 255, A = 255\<rparr>
     \<and> spec_channel 1 1 B = 255 / 9362"
  using getColor_not_interpolated [OF float64_model_exact] float64_model_exact by simp














section \<open>Properties of \<open>renderImage\<close>\<close>

lemma hilbert_New_0: "hilbert_New 0 = Inl ErrNotPositive"
  by (simp add: hilbert_New_def)

lemma hilbert_New_16: "hilbert_New 16 = Inr \<lparr>N = 16\<rparr>"
  by (simp add: hilbert_New_def)

lemma getLength_24:
  assumes "float64_model fp" "Mask_bits n = 32" "Mask_ones n = 24"
  shows "getLength fp n = Inr 16"
  using getLength_even [OF assms(1,2), of 4] assms(3) by simp

lemma renderImage_24:
  assumes "float64_model fp" "Mask_bits n = 32" "Mask_ones n = 24"
    and "IPv4ToInt (IPNet.IP n) = Inr s"
  shows "renderImage fp n t st hosts =
     paintHosts fp \<lparr>N = 16\<rparr> s st (maxValue st hosts)
       (if t then NewRGBA 16 else draw_Uniform (colors_at 0) (NewRGBA 16)) hosts"
  using assms(4) by (simp add: renderImage_def getLength_24 [OF assms(1-3)] hilbert_New_16)

lemma draw_Uniform_NewRGBA:
  "draw_Uniform c (NewRGBA l) = \<lparr>Rect_Max = l, Pix = replicate (nat (l * l)) c\<rparr>"
  by (simp add: draw_Uniform_def NewRGBA_def)

lemma RGBAAt_replicate:
  assumes "in_Rect \<lparr>Rect_Max = l, Pix = replicate (nat (l * l)) c\<rparr> x y"
  shows "RGBAAt \<lparr>Rect_Max = l, Pix = replicate (nat (l * l)) c\<rparr> x y = c"
proof -
  from assms have b: "0 \<le> x" "x < l" "0 \<le> y" "y < l" by (simp_all add: in_Rect_def)
  then have "y + 1 \<le> l" by simp
  then have "(y + 1) * l \<le> l * l" using b by (intro mult_right_mono) auto
  then have "y * l + x < l * l" using b by (simp add: algebra_simps)
  moreover have "0 \<le> y * l + x" using b by simp
  ultimately have "nat (y * l + x) < nat (l * l)" by linarith
  then show ?thesis using assms by (simp add: RGBAAt_def)
qed

text \<open>
  C7. For a /24 subnet (whose address has a 4-byte form) and no records, \<open>renderImage\<close>
  succeeds with a canvas of side 16 whose 256 pixels are all the first stop's colour
  (opaque black) when the transparency flag is off, and all the zero pixel (alpha 0) when it
  is on.
\<close>

theorem render_empty_24:
  assumes "float64_model fp" and "Mask_bits n = 32" and "Mask_ones n = 24"
    and "IPv4ToInt (IPNet.IP n) = Inr s"
  shows "renderImage fp n False st []
           = Inr \<lparr>Rect_Max = 16, Pix = replicate 256 \<lparr>R = 0, G = 0, B = 0, A = 255\<rparr>\<rparr>
       \<and> renderImage fp n True st []
           = Inr \<lparr>Rect_Max = 16, Pix = replicate 256 \<lparr>R = 0, G = 0, B = 0, A = 0\<rparr>\<rparr>
       \<and> (\<forall>x y. 0 \<le> x \<and> x < 16 \<and> 0 \<le> y \<and> y < 16 \<longrightarrow>
             RGBAAt \<lparr>Rect_Max = 16, Pix = replicate 256 \<lparr>R = 0, G = 0, B = 0, A = 255\<rparr>\<rparr> x y
               = \<lparr>R = 0, G = 0, B = 0, A = 255\<rparr>
           \<and> A (RGBAAt \<lparr>Rect_Max = 16, Pix = replicate 256 \<lparr>R = 0, G = 0, B = 0, A = 0\<rparr>\<rparr> x y) = 0)"
proof (intro conjI allI impI)
  show "renderImage fp n False st []
           = Inr \<lparr>Rect_Max = 16, Pix = replicate 256 \<lparr>R = 0, G = 0, B = 0, A = 255\<rparr>\<rparr>"
    by (simp add: renderImage_24 [OF assms] draw_Uniform_NewRGBA colors_at_simps)
  show "renderImage fp n True st []
           = Inr \<lparr>Rect_Max = 16, Pix = replicate 256 \<lparr>R = 0, G = 0, B = 0, A = 0\<rparr>\<rparr>"
    by (simp add: renderImage_24 [OF assms] NewRGBA_def)
next
  fix x y :: int
  assume b: "0 \<le> x \<and> x < 16 \<and> 0 \<le> y \<and> y < 16"
  show "RGBAAt \<lparr>Rect_Max = 16, Pix = replicate 256 \<lparr>R = 0, G = 0, B = 0, A = 255\<rparr>\<rparr> x y
               = \<lparr>R = 0, G = 0, B = 0, A = 255\<rparr>"
    using RGBAAt_replicate [of 16 "\<lparr>R = 0, G = 0, B = 0, A = 255\<rparr>" x y] b
    by (simp add: in_Rect_def)
  show "A (RGBAAt \<lparr>Rect_Max = 16, Pix = replicate 256 \<lparr>R = 0, G = 0, B = 0, A = 0\<rparr>\<rparr> x y) = 0"
    using RGBAAt_replicate [of 16 "\<lparr>R = 0, G = 0, B = 0, A = 0\<rparr>" x y] b
    by (simp add: in_Rect_def)
qed

lemma IPv4ToInt_10_0_0_0: "IPv4ToInt [10, 0, 0, 0] = Inr 167772160"
  by (simp add: IPv4ToInt_def To4_def)

theorem render_empty_24_witness:
  "float64_model exact_fp
   \<and> renderImage exact_fp \<lparr>IPNet.IP = [10, 0, 0, 0], Mask_ones = 24, Mask_bits = 32\<rparr> False
        ScanHostUp []
       = Inr \<lparr>Rect_Max = 16, Pix = replicate 256 \<lparr>R = 0, G = 0, B = 0, A = 255\<rparr>\<rparr>
   \<and> RGBAAt \<lparr>Rect_Max = 16, Pix = replicate 256 \<lparr>R = 0, G = 0, B = 0, A = 255\<rparr>\<rparr> 3 5
       = \<lparr>R = 0, G = 0, B = 0, A = 255\<rparr>"
  using render_empty_24 [OF float64_model_exact,
      of "\<lparr>IPNet.IP = [10, 0, 0, 0], Mask_ones = 24, Mask_bits = 32\<rparr>" 167772160 ScanHostUp]
    IPv4ToInt_10_0_0_0 float64_model_exact
  by simp

lemma IPv4ToInt_10_0_0_1: "IPv4ToInt [10, 0, 0, 1] = Inr 167772161"
  by (simp add: IPv4ToInt_def To4_def)

lemma paint_zero_max:
  assumes "IPv4ToInt (Host.IP h) = Inr a" and "hilbert_Map hil (uint (a - s)) = Inr p"
  shows "paint fp hil s st 0 canvas h = Inl PanicDivideByZero"
  using assms by (cases p) (simp add: paint_def level_def scale_def)

lemma hilbert_Map_in_range:
  "0 \<le> t \<Longrightarrow> t < N hil * N hil \<Longrightarrow> \<exists>p. hilbert_Map hil t = Inr p"
  by (simp add: hilbert_Map_def)

text \<open>
  C2. The claim is that a maximum of 0 gives every record level 0 and the render completes.
  The code divides by the maximum without a guard: on a /24 subnet, when the maximum is 0
  and the first record lies inside the subnet, \<open>renderImage\<close> panics with an integer
  division by zero.
\<close>

theorem render_zero_max_panics:
  assumes "float64_model fp" and "Mask_bits n = 32" and "Mask_ones n = 24"
    and "IPv4ToInt (IPNet.IP n) = Inr s"
    and "IPv4ToInt (Host.IP h) = Inr a" and "uint (a - s) < 256"
    and "maxValue st (h # hs) = 0"
  shows "renderImage fp n t st (h # hs) = Inl PanicDivideByZero"
proof -
  have "\<exists>p. hilbert_Map \<lparr>N = 16\<rparr> (uint (a - s)) = Inr p"
    using assms(6) by (intro hilbert_Map_in_range) auto
  then obtain p where "hilbert_Map \<lparr>N = 16\<rparr> (uint (a - s)) = Inr p" ..
  from paint_zero_max [OF assms(5) this]
  show ?thesis
    by (simp add: renderImage_24 [OF assms(1-4)] assms(7))
qed

theorem render_zero_max_panics_witness:
  "float64_model exact_fp
   \<and> maxValue ScanHostUp [\<lparr>Host.IP = [10, 0, 0, 1], RTT = 0, OpenPorts = []\<rparr>] = 0
   \<and> renderImage exact_fp \<lparr>IPNet.IP = [10, 0, 0, 0], Mask_ones = 24, Mask_bits = 32\<rparr> False
        ScanHostUp [\<lparr>Host.IP = [10, 0, 0, 1], RTT = 0, OpenPorts = []\<rparr>]
       = Inl PanicDivideByZero"
  using render_zero_max_panics [OF float64_model_exact,
      of "\<lparr>IPNet.IP = [10, 0, 0, 0], Mask_ones = 24, Mask_bits = 32\<rparr>" 167772160
         "\<lparr>Host.IP = [10, 0, 0, 1], RTT = 0, OpenPorts = []\<rparr>" 167772161 ScanHostUp "[]" False]
    IPv4ToInt_10_0_0_0 IPv4ToInt_10_0_0_1 float64_model_exact
  by (simp add: maxValue_def)

text \<open>
  C3. The claim is that the error of \<open>getLength\<close> is what \<open>renderImage\<close> returns. The
  code drops it: for a mask that is not 32 bits wide, or with an odd number of host bits,
  \<open>getLength\<close> fails with an \<open>InvalidSubnet\<close> error, and \<open>renderImage\<close> goes on with side
  0, builds the empty canvas and returns the error of \<open>hilbert.New\<close> on 0 instead.
\<close>

theorem render_drops_getLength_error:
  assumes "float64_model fp" and "0 \<le> Mask_ones n" and "Mask_ones n \<le> Mask_bits n"
    and "Mask_bits n \<noteq> 32 \<or> odd (32 - Mask_ones n)"
  shows "(\<exists>e. getLength fp n = Inl e \<and> InvalidSubnet e)
       \<and> renderImage fp n t st hosts = Inl (ErrHilbertMap ErrNotPositive)
       \<and> \<not> InvalidSubnet (ErrHilbertMap ErrNotPositive)"
proof -
  have e: "\<exists>e. getLength fp n = Inl e \<and> InvalidSubnet e"
    by (rule getLength_invalid [OF assms])
  then obtain e where "getLength fp n = Inl e" by blast
  then have "renderImage fp n t st hosts = Inl (ErrHilbertMap ErrNotPositive)"
    by (simp add: renderImage_def hilbert_New_0)
  with e show ?thesis by (simp add: InvalidSubnet_def)
qed

theorem render_drops_getLength_error_witness:
  "float64_model exact_fp
   \<and> getLength exact_fp \<lparr>IPNet.IP = [10, 0, 0, 0], Mask_ones = 23, Mask_bits = 32\<rparr>
       = Inl ErrNotSquare
   \<and> renderImage exact_fp \<lparr>IPNet.IP = [10, 0, 0, 0], Mask_ones = 23, Mask_bits = 32\<rparr> False
        ScanHostUp [] = Inl (ErrHilbertMap ErrNotPositive)"
  using render_drops_getLength_error [OF float64_model_exact,
      of "\<lparr>IPNet.IP = [10, 0, 0, 0], Mask_ones = 23, Mask_bits = 32\<rparr>" False ScanHostUp "[]"]
    getLength_odd [OF float64_model_exact,
      of "\<lparr>IPNet.IP = [10, 0, 0, 0], Mask_ones = 23, Mask_bits = 32\<rparr>" 4]
    float64_model_exact
  by simp

lemma hilbert_New_N: "hilbert_New l = Inr hil \<Longrightarrow> N hil = l"
  by (auto simp: hilbert_New_def split: if_splits)

lemma paintHosts_append:
  "paintHosts fp hil s st mx canvas (xs @ ys) =
     (case paintHosts fp hil s st mx canvas xs of
        Inl e \<Rightarrow> Inl e
      | Inr canvas' \<Rightarrow> paintHosts fp hil s st mx canvas' ys)"
  by (induction xs arbitrary: canvas) (auto split: sum.splits)

lemma paint_out_of_range:
  assumes "IPv4ToInt (Host.IP h) = Inr a"
    and "uint (a - s) < 0 \<or> N hil * N hil \<le> uint (a - s)"
  shows "paint fp hil s st mx canvas h = Inr canvas"
  using assms by (auto simp: paint_def hilbert_Map_def)

lemma renderImage_unfold:
  assumes "getLength fp n = Inr l" "hilbert_New l = Inr hil" "IPv4ToInt (IPNet.IP n) = Inr s"
  shows "renderImage fp n t st hosts =
     paintHosts fp hil s st (maxValue st hosts)
       (if t then NewRGBA l else draw_Uniform (colors_at 0) (NewRGBA l)) hosts"
  using assms by (simp add: renderImage_def)

text \<open>
  C6. A record whose offset from the subnet's address is outside \<open>[0, side * side)\<close> is
  skipped: the loop body returns the canvas unchanged and no error, the painting loop over
  a record list gives the same result with the record as without it, and \<open>renderImage\<close> on
  the list returns what painting the other records alone returns (the maximum still being
  the one of the whole list).
\<close>

theorem render_skips_out_of_range:
  assumes "getLength fp n = Inr l" and "hilbert_New l = Inr hil"
    and "IPv4ToInt (IPNet.IP n) = Inr s"
    and "IPv4ToInt (Host.IP h) = Inr a"
    and "uint (a - s) < 0 \<or> l * l \<le> uint (a - s)"
  shows "paint fp hil s st mx canvas h = Inr canvas
       \<and> paintHosts fp hil s st mx canvas (hs1 @ h # hs2)
           = paintHosts fp hil s st mx canvas (hs1 @ hs2)
       \<and> renderImage fp n t st (hs1 @ h # hs2)
           = paintHosts fp hil s st (maxValue st (hs1 @ h # hs2))
               (if t then NewRGBA l else draw_Uniform (colors_at 0) (NewRGBA l)) (hs1 @ hs2)"
proof -
  have r: "uint (a - s) < 0 \<or> N hil * N hil \<le> uint (a - s)"
    using assms(5) hilbert_New_N [OF assms(2)] by simp
  have skip: "paint fp hil s st m c h = Inr c" for m c
    by (rule paint_out_of_range [OF assms(4) r])
  have loop: "paintHosts fp hil s st m c (hs1 @ h # hs2) = paintHosts fp hil s st m c (hs1 @ hs2)"
    for m c
    by (simp add: paintHosts_append skip split: sum.splits)
  show ?thesis
    by (simp only: renderImage_unfold [OF assms(1-3)] skip loop simp_thms)
qed

lemma IPv4ToInt_10_0_1_5: "IPv4ToInt [10, 0, 1, 5] = Inr 167772421"
  by (simp add: IPv4ToInt_def To4_def)

theorem render_skips_out_of_range_witness:
  "paint exact_fp \<lparr>N = 16\<rparr> 167772160 ScanHostUp 7 (NewRGBA 16)
      \<lparr>Host.IP = [10, 0, 1, 5], RTT = 7, OpenPorts = []\<rparr> = Inr (NewRGBA 16)
   \<and> renderImage exact_fp \<lparr>IPNet.IP = [10, 0, 0, 0], Mask_ones = 24, Mask_bits = 32\<rparr> False
        ScanHostUp [\<lparr>Host.IP = [10, 0, 1, 5], RTT = 7, OpenPorts = []\<rparr>]
      = Inr \<lparr>Rect_Max = 16, Pix = replicate 256 \<lparr>R = 0, G = 0, B = 0, A = 255\<rparr>\<rparr>"
  using render_skips_out_of_range [of exact_fp
      "\<lparr>IPNet.IP = [10, 0, 0, 0], Mask_ones = 24, Mask_bits = 32\<rparr>" 16 "\<lparr>N = 16\<rparr>"
      167772160 "\<lparr>Host.IP = [10, 0, 1, 5], RTT = 7, OpenPorts = []\<rparr>" 167772421
      ScanHostUp 7 "NewRGBA 16" "[]" "[]" False]
    getLength_24 [OF float64_model_exact,
      of "\<lparr>IPNet.IP = [10, 0, 0, 0], Mask_ones = 24, Mask_bits = 32\<rparr>"]
    hilbert_New_16 IPv4ToInt_10_0_0_0 IPv4ToInt_10_0_1_5
  by (simp add: draw_Uniform_NewRGBA colors_at_simps)

lemma IPv4ToInt_To4: "To4 ip = To4 ip' \<Longrightarrow> IPv4ToInt ip = IPv4ToInt ip'"
  by (simp add: IPv4ToInt_def)

lemma getLength_mask:
  "Mask_ones n = Mask_ones n' \<Longrightarrow> Mask_bits n = Mask_bits n' \<Longrightarrow> getLength fp n = getLength fp n'"
  by (simp add: getLength_def)

lemma maxValue_metric:
  "maxValue st hosts = foldl (\<lambda>m h. if metric st h > m then metric st h else m) 0 hosts"
  by (cases "st = ScanHostUp") (simp_all add: maxValue_def metric_def cong: if_cong)

lemma foldl_max_alike:
  "list_all2 (reads_alike st) hosts hosts' \<Longrightarrow>
     foldl (\<lambda>m h. if metric st h > m then metric st h else m) m0 hosts
       = foldl (\<lambda>m h. if metric st h > m then metric st h else m) m0 hosts'"
  by (induction hosts hosts' arbitrary: m0 rule: list_all2_induct) (simp_all add: reads_alike_def)

lemma maxValue_alike:
  "list_all2 (reads_alike st) hosts hosts' \<Longrightarrow> maxValue st hosts = maxValue st hosts'"
  by (simp only: maxValue_metric foldl_max_alike)

lemma level_metric: "level st mx h = scale (metric st h) mx"
  by (simp add: level_def metric_def)

lemma paint_alike:
  assumes "reads_alike st h h'"
  shows "paint fp hil s st mx canvas h = paint fp hil s st mx canvas h'"
proof -
  have a: "IPv4ToInt (Host.IP h) = IPv4ToInt (Host.IP h')"
    using assms by (intro IPv4ToInt_To4) (simp add: reads_alike_def)
  have l: "level st mx h = level st mx h'"
    using assms by (simp add: level_metric reads_alike_def)
  show ?thesis unfolding paint_def a l ..
qed

lemma paintHosts_alike:
  "list_all2 (reads_alike st) hosts hosts' \<Longrightarrow>
     paintHosts fp hil s st mx canvas hosts = paintHosts fp hil s st mx canvas hosts'"
  by (induction hosts hosts' arbitrary: canvas rule: list_all2_induct)
     (simp_all add: paint_alike split: sum.splits)

text \<open>
  C9. Two runs of \<open>renderImage\<close> end the same way, and return canvases with the same
  bounds and the same colour at every pixel, whenever they agree on what the code reads:
  the transparency flag, the scan type, the mask, the 4-byte form of the subnet's address
  and, record by record in sequence, the 4-byte form of the record's address and the metric
  the scan type selects. Two runs on the same subnet, flag, scan type and record sequence
  agree on all of these.
\<close>

theorem render_deterministic:
  assumes "Mask_ones n = Mask_ones n'" and "Mask_bits n = Mask_bits n'"
    and "To4 (IPNet.IP n) = To4 (IPNet.IP n')"
    and "list_all2 (reads_alike st) hosts hosts'"
  shows "renderImage fp n t st hosts = renderImage fp n' t st hosts'
       \<and> (\<forall>c c'. renderImage fp n t st hosts = Inr c \<and> renderImage fp n' t st hosts' = Inr c'
             \<longrightarrow> Rect_Max c = Rect_Max c' \<and> (\<forall>x y. RGBAAt c x y = RGBAAt c' x y))"
proof -
  have "renderImage fp n t st hosts = renderImage fp n' t st hosts'"
    unfolding renderImage_def
    by (simp only: getLength_mask [OF assms(1,2)] IPv4ToInt_To4 [OF assms(3)]
          maxValue_alike [OF assms(4)] paintHosts_alike [OF assms(4)])
  then show ?thesis by auto
qed

lemma Map_16_1: "hilbert_Map \<lparr>N = 16\<rparr> 1 = Inr (1, 0)"
  by (simp add: hilbert_Map_def Map_loop.simps [of 16 1] Map_loop.simps [of 16 2]
      Map_loop.simps [of 16 4] Map_loop.simps [of 16 8] Map_loop.simps [of 16 16]
      Map_step_def rotate_def)

theorem render_deterministic_witness:
  "renderImage exact_fp \<lparr>IPNet.IP = [10, 0, 0, 0], Mask_ones = 24, Mask_bits = 32\<rparr> False
        ScanHostUp [\<lparr>Host.IP = [10, 0, 0, 1], RTT = 40, OpenPorts = []\<rparr>]
     = renderImage exact_fp
        \<lparr>IPNet.IP = [0, 0, 0, 0, 0, 0, 0, 0, 0, 0, 255, 255, 10, 0, 0, 0],
          Mask_ones = 24, Mask_bits = 32\<rparr> False
        ScanHostUp
        [\<lparr>Host.IP = [0, 0, 0, 0, 0, 0, 0, 0, 0, 0, 255, 255, 10, 0, 0, 1], RTT = 40,
           OpenPorts = [''tcp/80'']\<rparr>]
   \<and> renderImage exact_fp \<lparr>IPNet.IP = [10, 0, 0, 0], Mask_ones = 24, Mask_bits = 32\<rparr> False
        ScanHostUp [\<lparr>Host.IP = [10, 0, 0, 1], RTT = 40, OpenPorts = []\<rparr>]
     = Inr (SetRGBA \<lparr>Rect_Max = 16, Pix = replicate 256 \<lparr>R = 0, G = 0, B = 0, A = 255\<rparr>\<rparr>
              1 0 \<lparr>R = 255, G = 255, B = 255, A = 255\<rparr>)"
proof -
  have v: "renderImage exact_fp \<lparr>IPNet.IP = [10, 0, 0, 0], Mask_ones = 24, Mask_bits = 32\<rparr> False
        ScanHostUp [\<lparr>Host.IP = [10, 0, 0, 1], RTT = 40, OpenPorts = []\<rparr>]
     = Inr (SetRGBA \<lparr>Rect_Max = 16, Pix = replicate 256 \<lparr>R = 0, G = 0, B = 0, A = 255\<rparr>\<rparr>
              1 0 \<lparr>R = 255, G = 255, B = 255, A = 255\<rparr>)"
    using renderImage_24 [OF float64_model_exact, of
        "\<lparr>IPNet.IP = [10, 0, 0, 0], Mask_ones = 24, Mask_bits = 32\<rparr>" 167772160 False ScanHostUp
        "[\<lparr>Host.IP = [10, 0, 0, 1], RTT = 40, OpenPorts = []\<rparr>]"]
      IPv4ToInt_10_0_0_0 IPv4ToInt_10_0_0_1 Map_16_1
      scale_max [of 40] getColor_high [of 65535 exact_fp]
    by (simp add: paint_def level_def maxValue_def draw_Uniform_NewRGBA colors_at_simps
          MaxUint16_def)
  show ?thesis
    using render_deterministic [of
        "\<lparr>IPNet.IP = [10, 0, 0, 0], Mask_ones = 24, Mask_bits = 32\<rparr>"
        "\<lparr>IPNet.IP = [0, 0, 0, 0, 0, 0, 0, 0, 0, 0, 255, 255, 10, 0, 0, 0],
          Mask_ones = 24, Mask_bits = 32\<rparr>"
        ScanHostUp "[\<lparr>Host.IP = [10, 0, 0, 1], RTT = 40, OpenPorts = []\<rparr>]"
        "[\<lparr>Host.IP = [0, 0, 0, 0, 0, 0, 0, 0, 0, 0, 255, 255, 10, 0, 0, 1], RTT = 40,
           OpenPorts = [''tcp/80'']\<rparr>]" exact_fp False] v
    by (simp add: reads_alike_def To4_def metric_def)
qed

lemma IPv4ToInt_no_To4: "To4 ip = [] \<Longrightarrow> IPv4ToInt ip = Inl PanicIndexOutOfRange"
  by (simp add: IPv4ToInt_def)

lemma paint_no_To4:
  "To4 (Host.IP h) = [] \<Longrightarrow> paint fp hil s st mx canvas h = Inl PanicIndexOutOfRange"
  by (simp add: paint_def IPv4ToInt_no_To4)

lemma paint_error_is_panic: "paint fp hil s st mx canvas h = Inl e \<Longrightarrow> is_panic e"
  by (auto simp: paint_def IPv4ToInt_def level_def scale_def is_panic_def Let_def
      split: sum.splits if_splits prod.splits)

lemma paintHosts_panics:
  assumes "h \<in> set hosts" "To4 (Host.IP h) = []"
  shows "\<exists>e. paintHosts fp hil s st mx canvas hosts = Inl e \<and> is_panic e"
  using assms(1)
proof (induction hosts arbitrary: canvas)
  case Nil
  then show ?case by simp
next
  case (Cons x xs)
  show ?case
  proof (cases "paint fp hil s st mx canvas x")
    case (Inl e)
    then show ?thesis using paint_error_is_panic [OF Inl] by simp
  next
    case (Inr c)
    then have "x \<noteq> h" using paint_no_To4 [OF assms(2), of fp hil s st mx canvas] by auto
    then have "h \<in> set xs" using Cons.prems by auto
    from Cons.IH [OF this, of c] show ?thesis using Inr by simp
  qed
qed

lemma IP_String_no_To4:
  assumes "To4 ip = []" and "length ip = 16 \<longrightarrow> ipv6_text lb ip \<noteq> []"
  shows "IP_String lb ip \<noteq> []"
  using assms by (simp add: IP_String_def)

lemma parseHosts_keeps_acc:
  "parseHosts lb xhs acc = Inr hosts \<Longrightarrow> set acc \<subseteq> set hosts"
proof (induction xhs arbitrary: acc)
  case Nil
  then show ?case by simp
next
  case (Cons x xs)
  from Cons.prems obtain h' where
    "parseHosts lb xs (if IP_String lb (Host.IP h') \<noteq> [] then acc @ [h'] else acc) = Inr hosts"
    by (auto split: sum.splits)
  from Cons.IH [OF this] show ?case by (auto split: if_splits)
qed

lemma parseHosts_keeps:
  assumes "parseHosts lb xhs acc = Inr hosts" "xh \<in> set xhs" "parseHost lb xh = Inr h"
    and "IP_String lb (Host.IP h) \<noteq> []"
  shows "h \<in> set hosts"
  using assms(1,2)
proof (induction xhs arbitrary: acc)
  case Nil
  then show ?case by simp
next
  case (Cons x xs)
  from Cons.prems(1) obtain h' where h': "parseHost lb x = Inr h'"
    and rest: "parseHosts lb xs (if IP_String lb (Host.IP h') \<noteq> [] then acc @ [h'] else acc)
                 = Inr hosts"
    by (auto split: sum.splits)
  show ?case
  proof (cases "x = xh")
    case True
    with h' assms(3) have "h' = h" by simp
    with rest assms(4) have "parseHosts lb xs (acc @ [h]) = Inr hosts" by simp
    from parseHosts_keeps_acc [OF this] show ?thesis by simp
  next
    case False
    with Cons.prems(2) have "xh \<in> set xs" by simp
    from Cons.IH [OF rest this] show ?thesis .
  qed
qed

lemma host_IP_no_ipv4:
  "\<forall>xa \<in> set xas. Type xa \<noteq> ''ipv4'' \<Longrightarrow> foldl (\<lambda>ip xa. if Type xa = ''ipv4'' then ParseIP lb (Addr xa) else ip) ip0 xas = ip0"
  by (induction xas arbitrary: ip0) auto

text \<open>
  C10. For a record whose address has no 4-byte form (nil included), \<open>IPv4ToInt\<close> panics on
  the index into the nil result of \<open>To4\<close>, so the loop body panics and so does
  \<open>renderImage\<close> on any record list that holds it. Such a record passes the parser's filter:
  the string of a nil address is \<open>"<nil>"\<close>, that of any address without a 4-byte form is
  not empty (for a 16-byte one, as long as its IPv6 text is not), so \<open>parseXml\<close> returns it
  among its hosts; and a host element with no \<open>ipv4\<close> address gets the nil address.
\<close>

theorem nil_IP_panics_in_render:
  assumes "To4 (Host.IP h) = []"
  shows "IPv4ToInt (Host.IP h) = Inl PanicIndexOutOfRange
     \<and> paint fp hil s st mx canvas h = Inl PanicIndexOutOfRange
     \<and> (h \<in> set hosts \<and> getLength fp n = Inr l \<and> hilbert_New l = Inr hil
          \<and> IPv4ToInt (IPNet.IP n) = Inr s
        \<longrightarrow> (\<exists>e. renderImage fp n t st hosts = Inl e \<and> is_panic e))
     \<and> IP_String lb [] = ''<nil>''
     \<and> ((length (Host.IP h) = 16 \<longrightarrow> ipv6_text lb (Host.IP h) \<noteq> [])
        \<longrightarrow> IP_String lb (Host.IP h) \<noteq> []
          \<and> (xh \<in> set (Hosts doc) \<and> parseHost lb xh = Inr h \<and> parseXml lb doc = Inr parsed
              \<longrightarrow> h \<in> set parsed))
     \<and> ((\<forall>xa \<in> set (Addrs xh'). Type xa \<noteq> ''ipv4'') \<longrightarrow> host_IP lb (Addrs xh') = [])"
proof (intro conjI impI)
  show "IPv4ToInt (Host.IP h) = Inl PanicIndexOutOfRange"
    by (rule IPv4ToInt_no_To4 [OF assms])
  show "paint fp hil s st mx canvas h = Inl PanicIndexOutOfRange"
    by (rule paint_no_To4 [OF assms])
  show "IP_String lb [] = ''<nil>''" by (simp add: IP_String_def)
next
  assume a: "h \<in> set hosts \<and> getLength fp n = Inr l \<and> hilbert_New l = Inr hil
          \<and> IPv4ToInt (IPNet.IP n) = Inr s"
  then have "renderImage fp n t st hosts =
     paintHosts fp hil s st (maxValue st hosts)
       (if t then NewRGBA l else draw_Uniform (colors_at 0) (NewRGBA l)) hosts"
    by (intro renderImage_unfold) auto
  moreover from a have "h \<in> set hosts" by simp
  ultimately show "\<exists>e. renderImage fp n t st hosts = Inl e \<and> is_panic e"
    using paintHosts_panics [OF _ assms] by simp
next
  assume "length (Host.IP h) = 16 \<longrightarrow> ipv6_text lb (Host.IP h) \<noteq> []"
  then show s: "IP_String lb (Host.IP h) \<noteq> []" by (rule IP_String_no_To4 [OF assms])
  assume "xh \<in> set (Hosts doc) \<and> parseHost lb xh = Inr h \<and> parseXml lb doc = Inr parsed"
  then show "h \<in> set parsed"
    using parseHosts_keeps [of lb "Hosts doc" "[]" parsed xh h] s by (simp add: parseXml_def)
next
  assume "\<forall>xa \<in> set (Addrs xh'). Type xa \<noteq> ''ipv4''"
  then show "host_IP lb (Addrs xh') = []"
    unfolding host_IP_def by (rule host_IP_no_ipv4)
qed

lemma parse_no_address:
  "parseXml no_lib \<lparr>Hosts = [\<lparr>Addrs = [], Times = [], Ports = []\<rparr>]\<rparr>
     = Inr [\<lparr>Host.IP = [], RTT = 0, OpenPorts = []\<rparr>]"
  by (simp add: parseXml_def parseHost_def host_IP_def host_RTT_def IP_String_def)

theorem nil_IP_panics_in_render_witness:
  "parseXml no_lib \<lparr>Hosts = [\<lparr>Addrs = [], Times = [], Ports = []\<rparr>]\<rparr>
     = Inr [\<lparr>Host.IP = [], RTT = 0, OpenPorts = []\<rparr>]
   \<and> IP_String no_lib [] = ''<nil>''
   \<and> IPv4ToInt [] = Inl PanicIndexOutOfRange
   \<and> renderImage exact_fp \<lparr>IPNet.IP = [10, 0, 0, 0], Mask_ones = 24, Mask_bits = 32\<rparr> False
        ScanHostUp [\<lparr>Host.IP = [], RTT = 0, OpenPorts = []\<rparr>] = Inl PanicIndexOutOfRange"
proof -
  have t: "To4 (Host.IP \<lparr>Host.IP = [], RTT = 0, OpenPorts = []\<rparr>) = []"
    by (simp add: To4_def)
  have r: "renderImage exact_fp \<lparr>IPNet.IP = [10, 0, 0, 0], Mask_ones = 24, Mask_bits = 32\<rparr> False
        ScanHostUp [\<lparr>Host.IP = [], RTT = 0, OpenPorts = []\<rparr>] = Inl PanicIndexOutOfRange"
    using renderImage_24 [OF float64_model_exact, of
      "\<lparr>IPNet.IP = [10, 0, 0, 0], Mask_ones = 24, Mask_bits = 32\<rparr>" 167772160 False ScanHostUp
      "[\<lparr>Host.IP = [], RTT = 0, OpenPorts = []\<rparr>]"]
      IPv4ToInt_10_0_0_0
    by (simp add: paint_def IPv4ToInt_def To4_def)
  from nil_IP_panics_in_render [OF t, of exact_fp "\<lparr>N = 16\<rparr>" 167772160 ScanHostUp 0 "NewRGBA 16"
    "[\<lparr>Host.IP = [], RTT = 0, OpenPorts = []\<rparr>]"
    "\<lparr>IPNet.IP = [10, 0, 0, 0], Mask_ones = 24, Mask_bits = 32\<rparr>" 16 False no_lib
    "\<lparr>Addrs = [], Times = [], Ports = []\<rparr>"
    "\<lparr>Hosts = [\<lparr>Addrs = [], Times = [], Ports = []\<rparr>]\<rparr>"
    "[\<lparr>Host.IP = [], RTT = 0, OpenPorts = []\<rparr>]"
    "\<lparr>Addrs = [], Times = [], Ports = []\<rparr>"]
  show ?thesis using parse_no_address r by simp
qed

section \<open>Properties of the curve\<close>

lemma and_1_int: "(t::int) AND 1 = t mod 2"
  by (rule and_one_eq)

lemma and_2_int: "(t::int) AND 2 = 2 * ((t div 2) mod 2)"
proof -
  have "t AND 2 = of_bool (odd t \<and> odd (2::int)) + 2 * ((t div 2) AND (2 div 2))"
    by (rule and_int_rec)
  then show ?thesis by (simp add: and_one_eq)
qed

lemma bit1_mod4: "(t::int) AND 2 = 2 \<longleftrightarrow> t mod 4 = 2 \<or> t mod 4 = 3"
  unfolding and_2_int by presburger

lemma bit0_mod4: "(t::int) AND 1 = 1 \<longleftrightarrow> t mod 4 = 1 \<or> t mod 4 = 3"
  unfolding and_1_int by presburger

lemma Map_step_cases:
  "Map_step i (x, y) t =
     (if t mod 4 = 0 then (y, x)
      else if t mod 4 = 1 then (x, y + i)
      else if t mod 4 = 2 then (x + i, y + i)
      else (i - 1 - y + i, i - 1 - x))"
proof -
  have "t mod 4 = 0 \<or> t mod 4 = 1 \<or> t mod 4 = 2 \<or> t mod 4 = 3" by presburger
  then show ?thesis
    by (auto simp: Map_step_def rotate_def Let_def bit1_mod4 bit0_mod4)
qed

lemma Map_step_range:
  assumes "in_square i p"
  shows "in_square (i * 2) (Map_step i p t)"
  using assms by (cases p) (auto simp: Map_step_cases in_square_def)

lemma Map_step_inj:
  assumes "in_square i p" "in_square i p'" "Map_step i p t = Map_step i p' t'"
  shows "p = p' \<and> t mod 4 = t' mod 4"
proof -
  obtain x y x' y' where p: "p = (x, y)" "p' = (x', y')" by (cases p, cases p') auto
  have "t mod 4 = 0 \<or> t mod 4 = 1 \<or> t mod 4 = 2 \<or> t mod 4 = 3" by presburger
  moreover have "t' mod 4 = 0 \<or> t' mod 4 = 1 \<or> t' mod 4 = 2 \<or> t' mod 4 = 3" by presburger
  ultimately show ?thesis
    using assms unfolding p Map_step_cases in_square_def
    by (elim disjE) auto
qed

lemma Map_loop_bij:
  assumes "0 < i"
  shows "in_square i p \<Longrightarrow> 0 \<le> t \<Longrightarrow> t < 4 ^ m \<Longrightarrow> in_square (i * 2 ^ m) (Map_loop (i * 2 ^ m) i p t)"
    and "in_square i p \<Longrightarrow> in_square i p' \<Longrightarrow> 0 \<le> t \<Longrightarrow> t < 4 ^ m \<Longrightarrow> 0 \<le> t' \<Longrightarrow> t' < 4 ^ m
      \<Longrightarrow> Map_loop (i * 2 ^ m) i p t = Map_loop (i * 2 ^ m) i p' t' \<Longrightarrow> p = p' \<and> t = t'"
  using assms
proof (induction m arbitrary: i p p' t t')
  case 0
  {
    case 1
    then show ?case by (simp add: Map_loop.simps [of i i])
  next
    case 2
    then show ?case by (simp add: Map_loop.simps [of i i])
  }
next
  case (Suc m)
  have n: "i * 2 ^ Suc m = (i * 2) * 2 ^ m" by simp
  {
    case 1
    have "(1::int) \<le> 2 ^ m" by simp
    then have "i * 2 \<le> i * 2 ^ Suc m" using \<open>0 < i\<close> by simp
    then have lt: "i < i * 2 ^ Suc m" using \<open>0 < i\<close> by linarith
    have d: "0 \<le> t div 4" "t div 4 < 4 ^ m" using 1 by auto
    have "Map_loop (i * 2 ^ Suc m) i p t = Map_loop ((i * 2) * 2 ^ m) (i * 2) (Map_step i p t) (t div 4)"
      using lt \<open>0 < i\<close> by (subst Map_loop.simps) (simp add: mult.assoc)
    with Suc.IH(1) [OF Map_step_range [OF 1(1)] d] \<open>0 < i\<close> show ?case by (simp add: mult.assoc)
  next
    case 2
    have "(1::int) \<le> 2 ^ m" by simp
    then have "i * 2 \<le> i * 2 ^ Suc m" using \<open>0 < i\<close> by simp
    then have lt: "i < i * 2 ^ Suc m" using \<open>0 < i\<close> by linarith
    have d: "0 \<le> t div 4" "t div 4 < 4 ^ m" "0 \<le> t' div 4" "t' div 4 < 4 ^ m" using 2 by auto
    have u: "Map_loop (i * 2 ^ Suc m) i q s = Map_loop ((i * 2) * 2 ^ m) (i * 2) (Map_step i q s) (s div 4)"
      for q s
      using lt \<open>0 < i\<close> by (subst Map_loop.simps) (simp add: mult.assoc)
    from 2(7) have "Map_loop ((i * 2) * 2 ^ m) (i * 2) (Map_step i p t) (t div 4)
        = Map_loop ((i * 2) * 2 ^ m) (i * 2) (Map_step i p' t') (t' div 4)"
      by (simp only: u)
    from Suc.IH(2) [OF Map_step_range [OF 2(1)] Map_step_range [OF 2(2)] d this] \<open>0 < i\<close>
    have e: "Map_step i p t = Map_step i p' t'" "t div 4 = t' div 4" by auto
    from Map_step_inj [OF 2(1,2) e(1)] have "p = p'" "t mod 4 = t' mod 4" by auto
    moreover from this(2) e(2) have "t = t'"
      by (metis mult_div_mod_eq)
    ultimately show ?case by simp
  }
qed

lemma pow2_and_pred: "(2::int) ^ k AND (2 ^ k - 1) = 0"
proof -
  have "(2::int) ^ k - 1 = mask k" by (simp add: mask_eq_exp_minus_1)
  then have "(2::int) ^ k AND (2 ^ k - 1) = take_bit k (2 ^ k)"
    by (simp add: take_bit_eq_mask)
  then show ?thesis by simp
qed

lemma hilbert_New_pow2: "hilbert_New (2 ^ k) = Inr \<lparr>N = 2 ^ k\<rparr>"
  by (simp add: hilbert_New_def pow2_and_pred)

lemma sq_pow2: "(2::int) ^ k * 2 ^ k = 4 ^ k"
  by (simp add: power_mult_distrib [symmetric])

lemma Map_loop_onto:
  fixes k :: nat
  defines "n \<equiv> (2::int) ^ k"
  assumes "0 \<le> x" "x < n" "0 \<le> y" "y < n"
  shows "\<exists>t. 0 \<le> t \<and> t < n * n \<and> Map_loop n 1 (0, 0) t = (x, y)"
proof -
  let ?f = "\<lambda>t. Map_loop n 1 (0, 0) t"
  let ?S = "{0..<n * n}"
  let ?T = "{0..<n} \<times> {0..<n}"
  have sq: "n * n = 4 ^ k" unfolding n_def by (rule sq_pow2)
  have z: "in_square 1 (0, 0)" by (simp add: in_square_def)
  have r: "in_square n (?f t)" if "t \<in> ?S" for t
    using Map_loop_bij(1) [of 1 "(0, 0)" t k] that z sq unfolding n_def by simp
  have sub: "?f ` ?S \<subseteq> ?T"
  proof
    fix q assume "q \<in> ?f ` ?S"
    then obtain t where "t \<in> ?S" "q = ?f t" by blast
    with r [of t] show "q \<in> ?T" by (auto simp: in_square_def mem_Times_iff)
  qed
  have inj: "inj_on ?f ?S"
  proof (rule inj_onI)
    fix t t' assume "t \<in> ?S" "t' \<in> ?S" "?f t = ?f t'"
    then show "t = t'"
      using Map_loop_bij(2) [of 1 "(0, 0)" "(0, 0)" t k t'] z sq unfolding n_def by simp
  qed
  have "card (?f ` ?S) = card ?S" by (rule card_image [OF inj])
  also have "\<dots> = nat (n * n)" by simp
  also have "\<dots> = card ?T" by (simp add: nat_mult_distrib n_def)
  finally have "card (?f ` ?S) = card ?T" .
  moreover have "finite ?T" by simp
  ultimately have "?f ` ?S = ?T" using sub by (intro card_subset_eq) auto
  moreover have "(x, y) \<in> ?T" using assms by simp
  ultimately have "(x, y) \<in> ?f ` ?S" by simp
  then obtain t where "t \<in> ?S" "?f t = (x, y)" by (metis (no_types, lifting) imageE)
  then show ?thesis by auto
qed

text \<open>
  C5. For a side that is a power of two, \<open>hilbert.New\<close> accepts the side, and \<open>Map\<close> is a
  bijection from the offsets \<open>0 \<le> t < side * side\<close> to the points \<open>(x, y)\<close> with
  \<open>0 \<le> x, y < side\<close>: every offset has a point in the square, two offsets with the same
  point are equal, and every point of the square is the point of some offset.
\<close>

theorem hilbert_Map_bijection:
  assumes "side = 2 ^ k"
  shows "hilbert_New side = Inr \<lparr>N = side\<rparr>
       \<and> (\<forall>t. 0 \<le> t \<and> t < side * side \<longrightarrow>
            (\<exists>x y. hilbert_Map \<lparr>N = side\<rparr> t = Inr (x, y)
               \<and> 0 \<le> x \<and> x < side \<and> 0 \<le> y \<and> y < side))
       \<and> (\<forall>t t'. 0 \<le> t \<and> t < side * side \<and> 0 \<le> t' \<and> t' < side * side
              \<and> hilbert_Map \<lparr>N = side\<rparr> t = hilbert_Map \<lparr>N = side\<rparr> t' \<longrightarrow> t = t')
       \<and> (\<forall>x y. 0 \<le> x \<and> x < side \<and> 0 \<le> y \<and> y < side \<longrightarrow>
            (\<exists>t. 0 \<le> t \<and> t < side * side \<and> hilbert_Map \<lparr>N = side\<rparr> t = Inr (x, y)))"
proof (intro conjI allI impI)
  have sq: "side * side = 4 ^ k" unfolding assms by (rule sq_pow2)
  have z: "in_square 1 (0, 0)" by (simp add: in_square_def)
  show "hilbert_New side = Inr \<lparr>N = side\<rparr>"
    unfolding assms by (rule hilbert_New_pow2)
  {
    fix t assume t: "0 \<le> t \<and> t < side * side"
    have "in_square side (Map_loop side 1 (0, 0) t)"
      using Map_loop_bij(1) [of 1 "(0, 0)" t k] t z sq unfolding assms by simp
    then show "\<exists>x y. hilbert_Map \<lparr>N = side\<rparr> t = Inr (x, y)
               \<and> 0 \<le> x \<and> x < side \<and> 0 \<le> y \<and> y < side"
      using t by (cases "Map_loop side 1 (0, 0) t") (simp add: hilbert_Map_def in_square_def)
  }
  {
    fix t t' assume a: "0 \<le> t \<and> t < side * side \<and> 0 \<le> t' \<and> t' < side * side
              \<and> hilbert_Map \<lparr>N = side\<rparr> t = hilbert_Map \<lparr>N = side\<rparr> t'"
    then have "Map_loop side 1 (0, 0) t = Map_loop side 1 (0, 0) t'"
      by (auto simp: hilbert_Map_def split: if_splits)
    then show "t = t'"
      using Map_loop_bij(2) [of 1 "(0, 0)" "(0, 0)" t k t'] a z sq unfolding assms by simp
  }
  {
    fix x y assume "0 \<le> x \<and> x < side \<and> 0 \<le> y \<and> y < side"
    then have "\<exists>t. 0 \<le> t \<and> t < side * side \<and> Map_loop side 1 (0, 0) t = (x, y)"
      unfolding assms by (intro Map_loop_onto) auto
    then obtain t where t: "0 \<le> t" "t < side * side" "Map_loop side 1 (0, 0) t = (x, y)"
      by blast
    then have "hilbert_Map \<lparr>N = side\<rparr> t = Inr (x, y)" by (simp add: hilbert_Map_def)
    with t show "\<exists>t. 0 \<le> t \<and> t < side * side \<and> hilbert_Map \<lparr>N = side\<rparr> t = Inr (x, y)"
      by blast
  }
qed

lemma pow2_4: "(4::int) = 2 ^ 2"
  by simp

theorem hilbert_Map_bijection_witness:
  "hilbert_New 4 = Inr \<lparr>N = 4\<rparr>
   \<and> (\<exists>x y. hilbert_Map \<lparr>N = 4\<rparr> 7 = Inr (x, y) \<and> 0 \<le> x \<and> x < 4 \<and> 0 \<le> y \<and> y < 4)
   \<and> (\<exists>t. 0 \<le> t \<and> t < 4 * 4 \<and> hilbert_Map \<lparr>N = 4\<rparr> t = Inr (3, 1))"
  using hilbert_Map_bijection [OF pow2_4] by simp

end
